theory Spec2Isabelle
  imports Main "HOL-Library.Sublist"
begin

section \<open>Byte strings and the Go library calls of the pipeline\<close>

text \<open>
  A Go \<^verbatim>\<open>string\<close> is a sequence of bytes, and so is a HOL \<^typ>\<open>string\<close>: a
  \<^typ>\<open>char\<close> is one byte, \<^term>\<open>length\<close> counts bytes as Go's \<^verbatim>\<open>len\<close> does. The
  characters the source names by escape sequences are given by their byte values.
\<close>

definition bs :: char where "bs = CHR 0x5C"   \<comment> \<open>backslash\<close>
definition dq :: char where "dq = CHR 0x22"   \<comment> \<open>double quote\<close>
definition nl :: char where "nl = CHR 0x0A"   \<comment> \<open>newline\<close>
definition cr :: char where "cr = CHR 0x0D"   \<comment> \<open>carriage return\<close>
definition tab :: char where "tab = CHR 0x09" \<comment> \<open>horizontal tab\<close>

definition byte :: "char \<Rightarrow> nat" where
  "byte c = of_char c"

text \<open>\<^verbatim>\<open>strings.HasPrefix(s, p)\<close>.\<close>

definition HasPrefix :: "string \<Rightarrow> string \<Rightarrow> bool" where
  "HasPrefix s p = prefix p s"

text \<open>
  \<^verbatim>\<open>strings.Index(s, sub)\<close>: the byte offset of the first occurrence of \<open>sub\<close>; Go's
  \<^verbatim>\<open>-1\<close> is \<^term>\<open>None\<close>. \<^verbatim>\<open>strings.Contains\<close> is \<^verbatim>\<open>Index(s, sub) >= 0\<close>.
\<close>

fun Index :: "string \<Rightarrow> string \<Rightarrow> nat option" where
  "Index [] sub = (if sub = [] then Some 0 else None)"
| "Index (c # cs) sub =
     (if prefix sub (c # cs) then Some 0 else map_option Suc (Index cs sub))"

definition Contains :: "string \<Rightarrow> string \<Rightarrow> bool" where
  "Contains s sub = (Index s sub \<noteq> None)"

text \<open>\<^verbatim>\<open>strings.LastIndex(s, "/")\<close>, for the one-byte pattern the source passes.\<close>

definition LastIndex :: "string \<Rightarrow> char \<Rightarrow> nat option" where
  "LastIndex s c =
     (case Index (rev s) [c] of None \<Rightarrow> None | Some j \<Rightarrow> Some (length s - 1 - j))"

text \<open>
  \<^verbatim>\<open>strings.Split(s, sep)\<close> for a one-byte separator (the source splits on
  \<^verbatim>\<open>"\n"\<close> and on \<^verbatim>\<open>":"\<close>): one more piece than there are separators, never
  an empty list. \<^verbatim>\<open>strings.Join\<close> puts the separator back between the pieces.
\<close>

fun Split :: "string \<Rightarrow> char \<Rightarrow> string list" where
  "Split [] sep = [[]]"
| "Split (c # cs) sep =
     (if c = sep then [] # Split cs sep
      else (case Split cs sep of [] \<Rightarrow> [[c]] | p # ps \<Rightarrow> (c # p) # ps))"

fun Join :: "string list \<Rightarrow> string \<Rightarrow> string" where
  "Join [] sep = []"
| "Join [p] sep = p"
| "Join (p # q # ps) sep = p @ sep @ Join (q # ps) sep"

text \<open>
  \<^verbatim>\<open>strings.ReplaceAll(s, old, new)\<close> for a one-byte \<open>old\<close>, which is every call of
  the source: each occurrence of the byte is replaced, left to right.
\<close>

definition ReplaceAll :: "string \<Rightarrow> char \<Rightarrow> string \<Rightarrow> string" where
  "ReplaceAll s old new = concat (map (\<lambda>c. if c = old then new else [c]) s)"

text \<open>
  \<^verbatim>\<open>strings.TrimSpace\<close> removes leading and trailing Unicode white space. On the bytes
  of a string these are the six ASCII space bytes and the UTF-8 encodings of U+0085,
  U+00A0, U+1680, U+2000 to U+200A, U+2028, U+2029, U+202F, U+205F and U+3000; the
  library first trims on the left, then on the right.
\<close>

definition spaceSeqs :: "string list" where
  "spaceSeqs =
     [[CHR 0x09], [CHR 0x0A], [CHR 0x0B], [CHR 0x0C], [CHR 0x0D], [CHR 0x20],
      [CHR 0xC2, CHR 0x85], [CHR 0xC2, CHR 0xA0], [CHR 0xE1, CHR 0x9A, CHR 0x80],
      [CHR 0xE2, CHR 0x80, CHR 0x80], [CHR 0xE2, CHR 0x80, CHR 0x81],
      [CHR 0xE2, CHR 0x80, CHR 0x82], [CHR 0xE2, CHR 0x80, CHR 0x83],
      [CHR 0xE2, CHR 0x80, CHR 0x84], [CHR 0xE2, CHR 0x80, CHR 0x85],
      [CHR 0xE2, CHR 0x80, CHR 0x86], [CHR 0xE2, CHR 0x80, CHR 0x87],
      [CHR 0xE2, CHR 0x80, CHR 0x88], [CHR 0xE2, CHR 0x80, CHR 0x89],
      [CHR 0xE2, CHR 0x80, CHR 0x8A], [CHR 0xE2, CHR 0x80, CHR 0xA8],
      [CHR 0xE2, CHR 0x80, CHR 0xA9], [CHR 0xE2, CHR 0x80, CHR 0xAF],
      [CHR 0xE2, CHR 0x81, CHR 0x9F], [CHR 0xE3, CHR 0x80, CHR 0x80]]"

fun trimSeqs :: "string list \<Rightarrow> string \<Rightarrow> string" where
  "trimSeqs seqs [] = []"
| "trimSeqs seqs (c # cs) =
     (case List.find (\<lambda>p. prefix p (c # cs)) seqs of
        None \<Rightarrow> c # cs
      | Some p \<Rightarrow> if length p = 1 then trimSeqs seqs cs
                  else if length p = 2 then trimSeqs seqs (tl cs)
                  else trimSeqs seqs (tl (tl cs)))"

definition TrimLeft :: "string \<Rightarrow> string" where
  "TrimLeft s = trimSeqs spaceSeqs s"

definition TrimRight :: "string \<Rightarrow> string" where
  "TrimRight s = rev (trimSeqs (map rev spaceSeqs) (rev s))"

definition TrimSpace :: "string \<Rightarrow> string" where
  "TrimSpace s = TrimRight (TrimLeft s)"

text \<open>
  \<^verbatim>\<open>strings.ToLower\<close>. On a string of ASCII bytes the library maps \<^verbatim>\<open>A\<close> to
  \<^verbatim>\<open>Z\<close> onto \<^verbatim>\<open>a\<close> to \<^verbatim>\<open>z\<close> byte by byte. On any other string it maps every
  rune through the Unicode case tables, which may change the length of the string; the
  tables are not part of the repository, so that mapping is the parameter \<open>uni\<close>.
\<close>

definition isASCII :: "string \<Rightarrow> bool" where
  "isASCII s = list_all (\<lambda>c. byte c < 128) s"

definition lowerByte :: "char \<Rightarrow> char" where
  "lowerByte c = (if 65 \<le> byte c \<and> byte c \<le> 90 then char_of (byte c + 32) else c)"

definition ToLower :: "(string \<Rightarrow> string) \<Rightarrow> string \<Rightarrow> string" where
  "ToLower uni s = (if isASCII s then map lowerByte s else uni s)"

text \<open>
  \<^verbatim>\<open>strconv.Atoi\<close> on a 64-bit platform: an optional sign, then one or more decimal
  digits, and the value must fit \<^verbatim>\<open>int\<close>. Every error of the library is \<^term>\<open>None\<close>.
\<close>

definition isDigit :: "char \<Rightarrow> bool" where
  "isDigit c = (48 \<le> byte c \<and> byte c \<le> 57)"

fun parseDigits :: "nat \<Rightarrow> string \<Rightarrow> nat option" where
  "parseDigits acc [] = Some acc"
| "parseDigits acc (c # cs) =
     (if isDigit c then parseDigits (acc * 10 + (byte c - 48)) cs else None)"

definition Atoi :: "string \<Rightarrow> int option" where
  "Atoi s =
     (case s of
        [] \<Rightarrow> None
      | c # cs \<Rightarrow>
          let digits = (if c = CHR ''-'' \<or> c = CHR ''+'' then cs else s) in
          if digits = [] then None
          else (case parseDigits 0 digits of
                  None \<Rightarrow> None
                | Some n \<Rightarrow>
                    let v = (if c = CHR ''-'' then - int n else int n) in
                    if - (2 ^ 63) \<le> v \<and> v \<le> 2 ^ 63 - 1 then Some v else None))"

text \<open>\<^verbatim>\<open>fmt.Sprintf("%d", n)\<close>: the decimal digits of an integer.\<close>

fun natDigits :: "nat \<Rightarrow> string" where
  "natDigits n = (if n < 10 then [char_of (48 + n)] else natDigits (n div 10) @ [char_of (48 + n mod 10)])"

declare natDigits.simps [simp del]

definition itoa :: "int \<Rightarrow> string" where
  "itoa n = (if n < 0 then CHR ''-'' # natDigits (nat (- n)) else natDigits (nat n))"

section \<open>Report Encoder: escaping (sendErrorToEndpoint, lines 228 to 235)\<close>

text \<open>
  The stack trace goes through five \<^verbatim>\<open>ReplaceAll\<close> passes, in the order of the
  source. The message, \<^verbatim>\<open>fmt.Sprintf("%v", err)\<close>, goes through the first two only.
\<close>

definition escapeStackTrace :: "string \<Rightarrow> string" where
  "escapeStackTrace stackTrace =
     ReplaceAll
       (ReplaceAll
          (ReplaceAll
             (ReplaceAll (ReplaceAll stackTrace bs [bs, bs]) dq [bs, dq])
             nl [bs, CHR ''n''])
          cr [bs, CHR ''r''])
       tab [bs, CHR ''t'']"

definition escapeMessage :: "string \<Rightarrow> string" where
  "escapeMessage msg = ReplaceAll (ReplaceAll msg bs [bs, bs]) dq [bs, dq]"

section \<open>The standard JSON string unescape\<close>

text \<open>
  A JSON text is UTF-8 (RFC 8259, section 8.1). \<open>utf8Head\<close> is the number of bytes of
  the well-formed UTF-8 sequence at the head of a string, by the table of RFC 3629 (the
  one \<^verbatim>\<open>utf8.ValidString\<close> applies): one byte below 0x80; a lead byte C2 to DF and one
  continuation byte; a lead byte E0 to EF and two, F0 to F4 and three, with the narrowed
  range of the second byte behind E0, ED, F0 and F4. It is 0 when the string starts with
  no such sequence. A string is valid UTF-8 when it is a row of such sequences.
\<close>

definition isCont :: "char \<Rightarrow> bool" where
  "isCont c = (128 \<le> byte c \<and> byte c \<le> 191)"

definition second3 :: "char \<Rightarrow> char \<Rightarrow> bool" where
  "second3 a b =
     (if byte a = 224 then 160 \<le> byte b \<and> byte b \<le> 191
      else if byte a = 237 then 128 \<le> byte b \<and> byte b \<le> 159
      else isCont b)"

definition second4 :: "char \<Rightarrow> char \<Rightarrow> bool" where
  "second4 a b =
     (if byte a = 240 then 144 \<le> byte b \<and> byte b \<le> 191
      else if byte a = 244 then 128 \<le> byte b \<and> byte b \<le> 143
      else 241 \<le> byte a \<and> byte a \<le> 243 \<and> isCont b)"

definition utf8Head :: "string \<Rightarrow> nat" where
  "utf8Head s =
     (case s of
        [] \<Rightarrow> 0
      | a # r1 \<Rightarrow>
          if byte a < 128 then 1
          else
            (case r1 of
               [] \<Rightarrow> 0
             | b # r2 \<Rightarrow>
                 if 194 \<le> byte a \<and> byte a \<le> 223 then (if isCont b then 2 else 0)
                 else
                   (case r2 of
                      [] \<Rightarrow> 0
                    | c # r3 \<Rightarrow>
                        if 224 \<le> byte a \<and> byte a \<le> 239
                        then (if second3 a b \<and> isCont c then 3 else 0)
                        else
                          (case r3 of
                             [] \<Rightarrow> 0
                           | d # r4 \<Rightarrow>
                               if second4 a b \<and> isCont c \<and> isCont d then 4 else 0))))"

fun validUTF8 :: "string \<Rightarrow> bool" where
  "validUTF8 [] = True"
| "validUTF8 (c # cs) =
     (utf8Head (c # cs) \<noteq> 0 \<and> validUTF8 (drop (utf8Head (c # cs) - 1) cs))"

text \<open>
  The reader of the payload decodes a JSON string by RFC 8259: between the quotes, a byte
  below 0x20 and a bare double quote are not allowed, a backslash starts one of the
  escapes \<^verbatim>\<open>\" \\ \/ \b \f \n \r \t \uXXXX\<close>, and every other character, a well-formed
  UTF-8 sequence, stands for itself. Bytes that are no well-formed UTF-8 are refused, and
  so is a lone surrogate escape, which has no UTF-8 form: a decoder that goes on instead
  puts U+FFFD in their place, so with either decoder the text does not come back. A
  \<^verbatim>\<open>\uXXXX\<close> escape yields the UTF-8 bytes of its code point, a surrogate pair those of
  the combined code point. \<^term>\<open>None\<close> is a decoding error.
\<close>

definition hexVal :: "char \<Rightarrow> nat option" where
  "hexVal c =
     (if 48 \<le> byte c \<and> byte c \<le> 57 then Some (byte c - 48)
      else if 97 \<le> byte c \<and> byte c \<le> 102 then Some (byte c - 87)
      else if 65 \<le> byte c \<and> byte c \<le> 70 then Some (byte c - 55)
      else None)"

definition hex4 :: "char \<Rightarrow> char \<Rightarrow> char \<Rightarrow> char \<Rightarrow> nat option" where
  "hex4 a b c d =
     (case (hexVal a, hexVal b, hexVal c, hexVal d) of
        (Some w, Some x, Some y, Some z) \<Rightarrow> Some (((w * 16 + x) * 16 + y) * 16 + z)
      | _ \<Rightarrow> None)"

definition utf8 :: "nat \<Rightarrow> string" where
  "utf8 cp =
     (if cp < 0x80 then [char_of cp]
      else if cp < 0x800 then [char_of (0xC0 + cp div 64), char_of (0x80 + cp mod 64)]
      else if cp < 0x10000 then
        [char_of (0xE0 + cp div 4096), char_of (0x80 + (cp div 64) mod 64),
         char_of (0x80 + cp mod 64)]
      else
        [char_of (0xF0 + cp div 262144), char_of (0x80 + (cp div 4096) mod 64),
         char_of (0x80 + (cp div 64) mod 64), char_of (0x80 + cp mod 64)])"

definition escChar :: "char \<Rightarrow> char option" where
  "escChar e =
     (if e = dq then Some dq
      else if e = bs then Some bs
      else if e = CHR ''/'' then Some (CHR ''/'')
      else if e = CHR ''b'' then Some (CHR 0x08)
      else if e = CHR ''f'' then Some (CHR 0x0C)
      else if e = CHR ''n'' then Some nl
      else if e = CHR ''r'' then Some cr
      else if e = CHR ''t'' then Some tab
      else None)"

fun jsonUnescape :: "string \<Rightarrow> string option" where
  "jsonUnescape [] = Some []"
| "jsonUnescape (c # cs) =
     (if c = dq \<or> byte c < 32 then None
      else if c \<noteq> bs then
        (if utf8Head (c # cs) = 0 then None
         else map_option ((@) (take (utf8Head (c # cs)) (c # cs)))
                (jsonUnescape (drop (utf8Head (c # cs) - 1) cs)))
      else
        (case cs of
           [] \<Rightarrow> None
         | e # rest \<Rightarrow>
             if e = CHR ''u'' then
               (case rest of
                  h1 # h2 # h3 # h4 # rest' \<Rightarrow>
                    (case hex4 h1 h2 h3 h4 of
                       None \<Rightarrow> None
                     | Some hi \<Rightarrow>
                         if 0xD800 \<le> hi \<and> hi < 0xDC00 then
                           (case rest' of
                              b2 # u2 # l1 # l2 # l3 # l4 # rest'' \<Rightarrow>
                                (case hex4 l1 l2 l3 l4 of
                                   None \<Rightarrow> None
                                 | Some lo \<Rightarrow>
                                     if b2 = bs \<and> u2 = CHR ''u'' \<and> 0xDC00 \<le> lo \<and> lo < 0xE000
                                     then map_option
                                            ((@) (utf8 (0x10000 + (hi - 0xD800) * 1024 + (lo - 0xDC00))))
                                            (jsonUnescape rest'')
                                     else None)
                            | _ \<Rightarrow> None)
                         else if 0xDC00 \<le> hi \<and> hi < 0xE000 then None
                         else map_option ((@) (utf8 hi)) (jsonUnescape rest'))
                | _ \<Rightarrow> None)
             else
               (case escChar e of
                  None \<Rightarrow> None
                | Some x \<Rightarrow> map_option ((#) x) (jsonUnescape rest))))"

section \<open>Tenant Resolver: extractBoardId and isValidHex (lines 83 to 139)\<close>

text \<open>
  Of a request the pipeline reads the parsed query (\<^verbatim>\<open>r.URL.Query()\<close>), the headers, the
  host, the path and the method. \<^verbatim>\<open>Get\<close> of \<^verbatim>\<open>url.Values\<close> and of \<^verbatim>\<open>http.Header\<close>
  gives the first value stored under the key, and the empty string when there is none;
  \<^verbatim>\<open>os.Getenv\<close> gives the empty string for a variable that is not set.
\<close>

record Request =
  Query :: "string \<rightharpoonup> string list"
  Header :: "string \<rightharpoonup> string list"
  Host :: string
  Path :: string
  Method :: string

definition Get :: "(string \<rightharpoonup> string list) \<Rightarrow> string \<Rightarrow> string" where
  "Get m k = (case m k of None \<Rightarrow> [] | Some [] \<Rightarrow> [] | Some (v # _) \<Rightarrow> v)"

definition Getenv :: "(string \<rightharpoonup> string) \<Rightarrow> string \<Rightarrow> string" where
  "Getenv env k = (case env k of None \<Rightarrow> [] | Some v \<Rightarrow> v)"

text \<open>A run-time panic of the Go program is a value of the model.\<close>

datatype panic = SliceBoundsOutOfRange nat nat

text \<open>
  \<^verbatim>\<open>isValidHex\<close> ranges over the runes of the string. A rune decoded from a byte of 0x80
  or more is never an ASCII hexadecimal digit, so the test on the bytes is the same.
\<close>

definition isHexByte :: "char \<Rightarrow> bool" where
  "isHexByte c =
     ((48 \<le> byte c \<and> byte c \<le> 57) \<or> (97 \<le> byte c \<and> byte c \<le> 102) \<or>
      (65 \<le> byte c \<and> byte c \<le> 70))"

definition isValidHex :: "string \<Rightarrow> bool" where
  "isValidHex s = list_all isHexByte s"

text \<open>
  The block the source runs on the host (lines 100 to 113) and again, letter for letter,
  on the endpoint URL (lines 116 to 127). The index is found in the lower-cased string and
  used on the original one: the slice \<^verbatim>\<open>s[idx+6:]\<close> panics when it starts beyond the
  end of \<open>s\<close>. The empty string stands for "no board id here", as it does in the source.
\<close>

definition webapiPattern :: "(string \<Rightarrow> string) \<Rightarrow> string \<Rightarrow> panic + string" where
  "webapiPattern uni s =
     (if s \<noteq> [] then
        (case Index (ToLower uni s) ''webapi'' of
           None \<Rightarrow> Inr []
         | Some idx \<Rightarrow>
             if length s < idx + 6 then Inl (SliceBoundsOutOfRange (idx + 6) (length s))
             else
               let remaining = drop (idx + 6) s in
               if 24 \<le> length remaining then
                 let boardId = take 24 remaining in
                 if isValidHex boardId then Inr boardId else Inr []
               else Inr [])
      else Inr [])"

definition extractBoardId ::
  "(string \<Rightarrow> string) \<Rightarrow> (string \<rightharpoonup> string) \<Rightarrow> Request \<Rightarrow> panic + string" where
  "extractBoardId uni env r =
     (if Get (Query r) ''boardId'' \<noteq> [] then Inr (Get (Query r) ''boardId'')
      else if Get (Header r) ''X-Board-Id'' \<noteq> [] then Inr (Get (Header r) ''X-Board-Id'')
      else if Getenv env ''BOARD_ID'' \<noteq> [] then Inr (Getenv env ''BOARD_ID'')
      else
        (case webapiPattern uni (Host r) of
           Inl p \<Rightarrow> Inl p
         | Inr boardId \<Rightarrow>
             if boardId \<noteq> [] then Inr boardId
             else
               (case webapiPattern uni (Getenv env ''RUNTIME_ERROR_ENDPOINT_URL'') of
                  Inl p \<Rightarrow> Inl p
                | Inr boardId' \<Rightarrow> if boardId' \<noteq> [] then Inr boardId' else Inr [])))"

text \<open>
  The resolver in the words of the specification: the sources are tried in their order,
  the first one that yields a value ends the search, and the result is absent (the empty
  string) when none does. A source whose evaluation panics ends the search with the panic.
\<close>

fun firstMatch :: "(panic + string) list \<Rightarrow> panic + string" where
  "firstMatch [] = Inr []"
| "firstMatch (Inl p # srcs) = Inl p"
| "firstMatch (Inr v # srcs) = (if v \<noteq> [] then Inr v else firstMatch srcs)"

text \<open>
  The marker \<^verbatim>\<open>webapi\<close> stands at offset \<open>i\<close> of a string, letter case ignored; and
  \<open>i\<close> is the first such offset.
\<close>

definition markerAt :: "string \<Rightarrow> nat \<Rightarrow> bool" where
  "markerAt s i = prefix ''webapi'' (drop i (map lowerByte s))"

definition firstMarker :: "string \<Rightarrow> nat \<Rightarrow> bool" where
  "firstMarker s i = (markerAt s i \<and> (\<forall>j<i. \<not> markerAt s j))"

section \<open>Trace Locator: the scan of sendErrorToEndpoint (lines 147 to 226)\<close>

text \<open>
  The test on the line before a \<^verbatim>\<open>.go:\<close> line (lines 176 to 181) and the test on the
  file path (lines 195 to 203).
\<close>

definition isRecoveryFrame :: "string \<Rightarrow> bool" where
  "isRecoveryFrame prevLine =
     (Contains prevLine ''panicRecoveryMiddleware'' \<or>
      Contains prevLine ''sendErrorToEndpoint'' \<or>
      Contains prevLine ''runtime.Stack'' \<or>
      Contains prevLine ''runtime.gopanic'' \<or>
      Contains prevLine ''created by'' \<or>
      Contains prevLine ''panic('')"

definition isStdlibPath :: "string \<Rightarrow> bool" where
  "isStdlibPath filePath =
     (Contains filePath ''/runtime/'' \<or>
      Contains filePath ''/mise/installs/go/'' \<or>
      Contains filePath ''/src/runtime/'' \<or>
      Contains filePath ''/src/net/'' \<or>
      Contains filePath ''/src/syscall/'' \<or>
      Contains filePath ''/src/internal/'' \<or>
      Contains filePath ''/src/database/'' \<or>
      Contains filePath ''/usr/local/go/'' \<or>
      Contains filePath ''/usr/lib/go/'')"

text \<open>
  The local variables \<^verbatim>\<open>parts\<close>, \<^verbatim>\<open>filePath\<close> and \<^verbatim>\<open>lineStr\<close> of the loop body, as
  functions of the line; \<^verbatim>\<open>lineStr\<close> is cut at its first space when that space is not
  its first byte. The file name is what follows the last slash of the path.
\<close>

definition partsOf :: "string \<Rightarrow> string list" where
  "partsOf line = Split (TrimSpace line) (CHR '':'')"

definition filePathOf :: "string \<Rightarrow> string" where
  "filePathOf line = TrimSpace (Join (butlast (partsOf line)) '':'')"

definition lineStrOf :: "string \<Rightarrow> string" where
  "lineStrOf line =
     (let lineStr = TrimSpace (last (partsOf line)) in
      case Index lineStr '' '' of
        None \<Rightarrow> lineStr
      | Some spaceIdx \<Rightarrow> if 0 < spaceIdx then take spaceIdx lineStr else lineStr)"

definition baseName :: "string \<Rightarrow> string" where
  "baseName filePath =
     (case LastIndex filePath (CHR ''/'') of
        None \<Rightarrow> filePath
      | Some lastSlash \<Rightarrow> drop (lastSlash + 1) filePath)"

text \<open>
  One turn of the loop at index \<open>i\<close> of \<open>lines\<close> (the loop keeps \<open>i\<close> below the length
  of \<open>lines\<close>, and reads \<open>lines ! (i - 1)\<close> only when \<open>0 < i\<close>): \<^term>\<open>None\<close> when the
  turn changes nothing and the loop goes on, the file name and line number when it assigns
  them and breaks.
\<close>

definition frameAt :: "string list \<Rightarrow> nat \<Rightarrow> (string \<times> int) option" where
  "frameAt lines i =
     (let line = lines ! i in
      if HasPrefix line ''goroutine'' then None
      else if Contains line ''.go:'' \<and> 0 < i then
        (let prevLine = lines ! (i - 1) in
         if isRecoveryFrame prevLine then None
         else if 2 \<le> length (partsOf line) then
           (if isStdlibPath (filePathOf line) then None
            else (case Atoi (lineStrOf line) of
                    None \<Rightarrow> None
                  | Some lineNum \<Rightarrow> Some (baseName (filePathOf line), lineNum)))
         else None)
      else None)"

primrec firstHit :: "(nat \<Rightarrow> 'a option) \<Rightarrow> nat list \<Rightarrow> 'a option" where
  "firstHit f [] = None"
| "firstHit f (i # is) = (case f i of None \<Rightarrow> firstHit f is | Some r \<Rightarrow> Some r)"

text \<open>
  The result is the pair of \<^verbatim>\<open>fileName\<close> and \<^verbatim>\<open>lineNumber\<close> after the loop; both keep
  their zero values, the empty string and 0, when no turn of the loop breaks.
\<close>

definition locate :: "string \<Rightarrow> string \<times> int" where
  "locate stackTrace =
     (let lines = Split stackTrace nl in
      case firstHit (frameAt lines) [0..<length lines] of
        None \<Rightarrow> ([], 0)
      | Some found \<Rightarrow> found)"







text \<open>
  A trace written frame by frame: each frame is a descriptor line and a path line, and
  the lines are joined by newlines.
\<close>

definition flatFrames :: "(string \<times> string) list \<Rightarrow> string list" where
  "flatFrames frames = concat (map (\<lambda>(d, p). [d, p]) frames)"


section \<open>Report Encoder: the payload (lines 237 to 272)\<close>

text \<open>
  The three optional values are written by the same three tests in every payload the
  program builds (lines 238 to 246 and 260 to 263, again at 660 to 668 and 682 to 685,
  and at 754 to 762 and 776 to 779).
\<close>

definition quoted :: "string \<Rightarrow> string" where
  "quoted s = dq # s @ [dq]"

definition boardIdJson :: "string \<Rightarrow> string" where
  "boardIdJson boardId = (if boardId = [] then ''null'' else quoted boardId)"

definition fileJson :: "string \<Rightarrow> string" where
  "fileJson fileName =
     (if fileName \<noteq> [] then quoted (ReplaceAll fileName dq [bs, dq]) else ''null'')"

definition lineJson :: "int \<Rightarrow> string" where
  "lineJson lineNumber = (if 0 < lineNumber then itoa lineNumber else ''null'')"

text \<open>
  The \<^verbatim>\<open>fmt.Sprintf\<close> template lists ten keys, each on a line of its own, with the value
  text behind the colon: for a \<^verbatim>\<open>"%s"\<close> verb the argument between quotes, for a bare
  \<^verbatim>\<open>%s\<close> the argument as it is. \<open>payloadFields\<close> is the list of keys with their value
  texts; \<open>renderPayload\<close> lays them out as the template does, the keys indented by
  \<open>indent\<close> spaces and the closing brace by four less.
\<close>

definition payloadFields ::
  "string \<Rightarrow> string \<Rightarrow> string \<times> int \<Rightarrow> string \<Rightarrow> string \<Rightarrow> string \<Rightarrow> string \<Rightarrow> string \<Rightarrow> string
     \<Rightarrow> (string \<times> string) list" where
  "payloadFields boardId now loc stackTrace msg exceptionType requestPath requestMethod userAgent =
     [(''boardId'', boardIdJson boardId),
      (''timestamp'', quoted now),
      (''file'', fileJson (fst loc)),
      (''line'', lineJson (snd loc)),
      (''stackTrace'', quoted (escapeStackTrace stackTrace)),
      (''message'', quoted (escapeMessage msg)),
      (''exceptionType'', quoted exceptionType),
      (''requestPath'', quoted requestPath),
      (''requestMethod'', quoted requestMethod),
      (''userAgent'', quoted userAgent)]"

definition renderPayload :: "nat \<Rightarrow> (string \<times> string) list \<Rightarrow> string" where
  "renderPayload indent kvs =
     ''{'' @ [nl] @
     Join (map (\<lambda>(k, v). replicate indent (CHR '' '') @ quoted k @ '':'' @ v) kvs) ('','' @ [nl]) @
     [nl] @ replicate (indent - 4) (CHR '' '') @ ''}''"

text \<open>
  The payload of a recovered request panic: \<open>now\<close> is the formatted time stamp, \<open>err\<close>
  the text \<^verbatim>\<open>fmt.Sprintf("%v", err)\<close> of the panic value.
\<close>

definition UserAgent :: "Request \<Rightarrow> string" where
  "UserAgent r = Get (Header r) ''User-Agent''"

definition panicFields :: "string \<Rightarrow> string \<Rightarrow> Request \<Rightarrow> string \<Rightarrow> string \<Rightarrow> (string \<times> string) list" where
  "panicFields now boardId r err stackTrace =
     payloadFields boardId now (locate stackTrace) stackTrace err ''panic''
       (Path r) (Method r) (UserAgent r)"

definition panicPayload :: "string \<Rightarrow> string \<Rightarrow> Request \<Rightarrow> string \<Rightarrow> string \<Rightarrow> string" where
  "panicPayload now boardId r err stackTrace =
     renderPayload 8 (panicFields now boardId r err stackTrace)"

section \<open>Report Dispatcher (lines 274 to 297)\<close>

text \<open>
  The network is a parameter of the model: \<open>newRequestErr\<close> is the error, if any, with
  which \<^verbatim>\<open>http.NewRequest\<close> refuses the URL, and \<open>clientDo\<close> the outcome of
  \<^verbatim>\<open>client.Do\<close>, an error text or the status code and body of the response. The
  dispatcher takes one of four paths, prints the log line of that path and returns.
\<close>

record OutRequest =
  ReqMethod :: string
  ReqURL :: string
  ReqBody :: string
  ReqContentType :: string

datatype dispatchPath =
    CreateFailed string
  | SendFailed string
  | ResponseWithBody int string
  | ResponseOk int

definition logLine :: "dispatchPath \<Rightarrow> string" where
  "logLine path =
     (case path of
        CreateFailed err2 \<Rightarrow> ''[PANIC RECOVERY] Failed to create request: '' @ err2
      | SendFailed err2 \<Rightarrow> ''[PANIC RECOVERY] Failed to send error to endpoint: '' @ err2
      | ResponseWithBody statusCode body \<Rightarrow>
          ''[PANIC RECOVERY] Error endpoint response: '' @ itoa statusCode @ '' - '' @ body
      | ResponseOk statusCode \<Rightarrow>
          ''[PANIC RECOVERY] Error endpoint response: '' @ itoa statusCode)"

definition dispatch ::
  "(string \<Rightarrow> string option) \<Rightarrow> (OutRequest \<Rightarrow> string + int \<times> string) \<Rightarrow> string \<Rightarrow> string
     \<Rightarrow> panic + dispatchPath" where
  "dispatch newRequestErr clientDo endpointUrl payload =
     (case newRequestErr endpointUrl of
        Some err2 \<Rightarrow> Inr (CreateFailed err2)
      | None \<Rightarrow>
          (case clientDo \<lparr>ReqMethod = ''POST'', ReqURL = endpointUrl, ReqBody = payload,
                          ReqContentType = ''application/json''\<rparr> of
             Inl err2 \<Rightarrow> Inr (SendFailed err2)
           | Inr (statusCode, body) \<Rightarrow>
               if statusCode \<noteq> 200 then Inr (ResponseWithBody statusCode body)
               else Inr (ResponseOk statusCode)))"

definition sendErrorToEndpoint ::
  "(string \<Rightarrow> string option) \<Rightarrow> (OutRequest \<Rightarrow> string + int \<times> string) \<Rightarrow> string \<Rightarrow>
   string \<Rightarrow> string \<Rightarrow> Request \<Rightarrow> string \<Rightarrow> string \<Rightarrow> panic + dispatchPath" where
  "sendErrorToEndpoint newRequestErr clientDo now endpointUrl boardId r err stackTrace =
     dispatch newRequestErr clientDo endpointUrl (panicPayload now boardId r err stackTrace)"

section \<open>Recovery Middleware: panicRecoveryMiddleware (lines 44 to 81)\<close>







text \<open>The body written at line 75: the panic text is put between the quotes as it is.\<close>

definition errorBody :: "string \<Rightarrow> string" where
  "errorBody err =
     ''{'' @ quoted ''error'' @ '':'' @
     quoted ''An error occurred while processing your request'' @ '','' @
     quoted ''message'' @ '':'' @ quoted err @ ''}''"





section \<open>Startup failures: the end of main (lines 611 to 800)\<close>

text \<open>
  The two startup paths scan the trace with a shorter loop: no test on the line before,
  none on the path, the line is split as it is and the text after the last colon is only
  trimmed.
\<close>

definition frameAtStartup :: "string list \<Rightarrow> nat \<Rightarrow> (string \<times> int) option" where
  "frameAtStartup lines i =
     (let line = lines ! i in
      if Contains line ''.go:'' \<and> 0 < i then
        (let parts = Split line (CHR '':'') in
         if 2 \<le> length parts then
           (let lineStr = TrimSpace (last parts) in
            case Atoi lineStr of
              None \<Rightarrow> None
            | Some lineNum \<Rightarrow>
                Some (baseName (TrimSpace (Join (butlast parts) '':'')), lineNum))
         else None)
      else None)"

definition locateStartup :: "string \<Rightarrow> string \<times> int" where
  "locateStartup stackTrace =
     (let lines = Split stackTrace nl in
      case firstHit (frameAtStartup lines) [0..<length lines] of
        None \<Rightarrow> ([], 0)
      | Some found \<Rightarrow> found)"

definition startupFields ::
  "string \<Rightarrow> string \<Rightarrow> string \<Rightarrow> string \<Rightarrow> string \<Rightarrow> (string \<times> string) list" where
  "startupFields exceptionType now boardId msg stackTrace =
     payloadFields boardId now (locateStartup stackTrace) stackTrace msg exceptionType
       ''STARTUP'' ''STARTUP'' ''STARTUP_ERROR''"





section \<open>Well-formed JSON documents\<close>

text \<open>
  A recogniser for the JSON grammar of RFC 8259 over bytes. Each scanner takes the
  input at the start of what it reads and returns the input left behind it, or
  \<^term>\<open>None\<close> when the input does not start with such a text. \<open>scanString\<close> starts
  behind the opening quote and accepts, outside the escapes, well-formed UTF-8 only.
 The scanners of the nested values take fuel, one unit per
  value, member list or element list entered.
\<close>

definition isWs :: "char \<Rightarrow> bool" where
  "isWs c = (c = CHR '' '' \<or> c = tab \<or> c = nl \<or> c = cr)"

definition skipWs :: "string \<Rightarrow> string" where
  "skipWs s = dropWhile isWs s"

fun scanString :: "string \<Rightarrow> string option" where
  "scanString [] = None"
| "scanString (c # cs) =
     (if c = dq then Some cs
      else if byte c < 32 then None
      else if c \<noteq> bs then
        (if utf8Head (c # cs) = 0 then None else scanString (drop (utf8Head (c # cs) - 1) cs))
      else
        (case cs of
           [] \<Rightarrow> None
         | e # rest \<Rightarrow>
             if e = CHR ''u'' then
               (case rest of
                  h1 # h2 # h3 # h4 # rest' \<Rightarrow>
                    if hex4 h1 h2 h3 h4 \<noteq> None then scanString rest' else None
                | _ \<Rightarrow> None)
             else if escChar e \<noteq> None then scanString rest
             else None))"

definition scanExp :: "string \<Rightarrow> string option" where
  "scanExp s =
     (case s of
        [] \<Rightarrow> Some s
      | c # cs \<Rightarrow>
          if c = CHR ''e'' \<or> c = CHR ''E'' then
            (case (case cs of [] \<Rightarrow> cs | x # xs \<Rightarrow> if x = CHR ''+'' \<or> x = CHR ''-'' then xs else cs) of
               [] \<Rightarrow> None
             | d # ds \<Rightarrow> if isDigit d then Some (dropWhile isDigit ds) else None)
          else Some s)"

definition scanFrac :: "string \<Rightarrow> string option" where
  "scanFrac s =
     (case s of
        [] \<Rightarrow> scanExp s
      | c # cs \<Rightarrow>
          if c = CHR ''.'' then
            (case cs of
               [] \<Rightarrow> None
             | d # ds \<Rightarrow> if isDigit d then scanExp (dropWhile isDigit ds) else None)
          else scanExp s)"

definition scanNumber :: "string \<Rightarrow> string option" where
  "scanNumber s =
     (case (case s of [] \<Rightarrow> s | c # cs \<Rightarrow> if c = CHR ''-'' then cs else s) of
        [] \<Rightarrow> None
      | d # ds \<Rightarrow>
          if d = CHR ''0'' then scanFrac ds
          else if isDigit d then scanFrac (dropWhile isDigit ds)
          else None)"

definition scanLiteral :: "string \<Rightarrow> string \<Rightarrow> string option" where
  "scanLiteral lit s = (if prefix lit s then Some (drop (length lit) s) else None)"

fun scanValue :: "nat \<Rightarrow> string \<Rightarrow> string option"
  and scanMembers :: "nat \<Rightarrow> string \<Rightarrow> string option"
  and scanElements :: "nat \<Rightarrow> string \<Rightarrow> string option" where
  "scanValue 0 s = None"
| "scanValue (Suc n) s =
     (case s of
        [] \<Rightarrow> None
      | c # cs \<Rightarrow>
          if c = CHR ''{'' then
            (case skipWs cs of
               [] \<Rightarrow> None
             | x # xs \<Rightarrow> if x = CHR ''}'' then Some xs else scanMembers n (x # xs))
          else if c = CHR ''['' then
            (case skipWs cs of
               [] \<Rightarrow> None
             | x # xs \<Rightarrow> if x = CHR '']'' then Some xs else scanElements n (x # xs))
          else if c = dq then scanString cs
          else if c = CHR ''t'' then scanLiteral ''true'' s
          else if c = CHR ''f'' then scanLiteral ''false'' s
          else if c = CHR ''n'' then scanLiteral ''null'' s
          else scanNumber s)"
| "scanMembers 0 s = None"
| "scanMembers (Suc n) s =
     (case s of
        [] \<Rightarrow> None
      | c # cs \<Rightarrow>
          if c \<noteq> dq then None
          else
            (case scanString cs of
               None \<Rightarrow> None
             | Some afterKey \<Rightarrow>
                 (case skipWs afterKey of
                    [] \<Rightarrow> None
                  | x # xs \<Rightarrow>
                      if x \<noteq> CHR '':'' then None
                      else
                        (case scanValue n (skipWs xs) of
                           None \<Rightarrow> None
                         | Some afterValue \<Rightarrow>
                             (case skipWs afterValue of
                                [] \<Rightarrow> None
                              | y # ys \<Rightarrow>
                                  if y = CHR '','' then scanMembers n (skipWs ys)
                                  else if y = CHR ''}'' then Some ys
                                  else None)))))"
| "scanElements 0 s = None"
| "scanElements (Suc n) s =
     (case scanValue n s of
        None \<Rightarrow> None
      | Some afterValue \<Rightarrow>
          (case skipWs afterValue of
             [] \<Rightarrow> None
           | y # ys \<Rightarrow>
               if y = CHR '','' then scanElements n (skipWs ys)
               else if y = CHR '']'' then Some ys
               else None))"

definition jsonDocument :: "nat \<Rightarrow> string \<Rightarrow> bool" where
  "jsonDocument fuel s =
     (case scanValue fuel (skipWs s) of None \<Rightarrow> False | Some r \<Rightarrow> skipWs r = [])"

text \<open>A text is a well-formed JSON document when the recogniser accepts it with some fuel.\<close>

definition wellFormedJSON :: "string \<Rightarrow> bool" where
  "wellFormedJSON s = (\<exists>fuel. jsonDocument fuel s)"

text \<open>
  The content of a JSON string, between its quotes: no bare double quote, no byte below
  0x20, every backslash starts an escape of the grammar, and the other bytes are
  well-formed UTF-8.
\<close>

fun stringContent :: "string \<Rightarrow> bool" where
  "stringContent [] = True"
| "stringContent (c # cs) =
     (if c = dq \<or> byte c < 32 then False
      else if c \<noteq> bs then
        utf8Head (c # cs) \<noteq> 0 \<and> stringContent (drop (utf8Head (c # cs) - 1) cs)
      else
        (case cs of
           [] \<Rightarrow> False
         | e # rest \<Rightarrow>
             if e = CHR ''u'' then
               (case rest of
                  h1 # h2 # h3 # h4 # rest' \<Rightarrow> hex4 h1 h2 h3 h4 \<noteq> None \<and> stringContent rest'
                | _ \<Rightarrow> False)
             else escChar e \<noteq> None \<and> stringContent rest))"

section \<open>Properties of the escaping\<close>

definition esc5 :: "char \<Rightarrow> string" where
  "esc5 c =
     (if c = bs then [bs, bs]
      else if c = dq then [bs, dq]
      else if c = nl then [bs, CHR ''n'']
      else if c = cr then [bs, CHR ''r'']
      else if c = tab then [bs, CHR ''t'']
      else [c])"

definition esc2 :: "char \<Rightarrow> string" where
  "esc2 c = (if c = bs then [bs, bs] else if c = dq then [bs, dq] else [c])"

lemma ReplaceAll_Nil [simp]: "ReplaceAll [] old new = []"
  by (simp add: ReplaceAll_def)

lemma ReplaceAll_Cons:
  "ReplaceAll (c # cs) old new = (if c = old then new else [c]) @ ReplaceAll cs old new"
  by (simp add: ReplaceAll_def)

lemma ReplaceAll_append:
  "ReplaceAll (xs @ ys) old new = ReplaceAll xs old new @ ReplaceAll ys old new"
  by (simp add: ReplaceAll_def)

lemma escapeStackTrace_Nil [simp]: "escapeStackTrace [] = []"
  by (simp add: escapeStackTrace_def)

text \<open>The passes together rewrite each byte on its own.\<close>

lemma escapeStackTrace_Cons: "escapeStackTrace (c # cs) = esc5 c @ escapeStackTrace cs"
  by (simp add: escapeStackTrace_def ReplaceAll_Cons ReplaceAll_append esc5_def
      bs_def dq_def nl_def cr_def tab_def)

lemma escapeStackTrace_concat: "escapeStackTrace s = concat (map esc5 s)"
  by (induction s) (simp_all add: escapeStackTrace_Cons)

lemma escapeMessage_Nil [simp]: "escapeMessage [] = []"
  by (simp add: escapeMessage_def)

lemma escapeMessage_Cons:
  "escapeMessage (c # cs) =
     (if c = bs then [bs, bs] else if c = dq then [bs, dq] else [c]) @ escapeMessage cs"
  by (simp add: escapeMessage_def ReplaceAll_Cons ReplaceAll_append bs_def dq_def)

lemma escapeMessage_concat: "escapeMessage s = concat (map esc2 s)"
  by (induction s) (simp_all add: escapeMessage_Cons esc2_def)

text \<open>The well-formed sequence at the head of a string.\<close>

lemma utf8Head_ascii: "byte c < 128 \<Longrightarrow> utf8Head (c # cs) = 1"
  by (simp add: utf8Head_def)

lemma utf8Head_le: "utf8Head s \<le> length s"
  by (simp add: utf8Head_def split: list.splits)

lemma utf8Head_high:
  assumes "128 \<le> byte c" and "x \<in> set (take (utf8Head (c # cs)) (c # cs))"
  shows "128 \<le> byte x"
proof (cases cs)
  case Nil
  with assms show ?thesis
    by (simp add: utf8Head_def)
next
  case c1: (Cons b r2)
  show ?thesis
  proof (cases "194 \<le> byte c \<and> byte c \<le> 223")
    case True
    with assms c1 show ?thesis
      by (auto simp add: utf8Head_def isCont_def split: if_splits)
  next
    case n2: False
    show ?thesis
    proof (cases r2)
      case Nil
      with assms c1 n2 show ?thesis
        by (auto simp add: utf8Head_def)
    next
      case c2: (Cons d r3)
      show ?thesis
      proof (cases "224 \<le> byte c \<and> byte c \<le> 239")
        case True
        with assms c1 c2 n2 show ?thesis
          by (auto simp add: utf8Head_def isCont_def second3_def split: if_splits)
      next
        case n3: False
        show ?thesis
        proof (cases r3)
          case Nil
          with assms c1 c2 n2 n3 show ?thesis
            by (auto simp add: utf8Head_def)
        next
          case c3: (Cons e r4)
          with assms c1 c2 n2 n3 show ?thesis
            by (auto simp add: utf8Head_def isCont_def second4_def split: if_splits)
        qed
      qed
    qed
  qed
qed

lemma utf8Head_append:
  assumes "utf8Head s \<noteq> 0"
  shows "utf8Head (take (utf8Head s) s @ t) = utf8Head s"
proof (cases s)
  case Nil
  with assms show ?thesis
    by (simp add: utf8Head_def)
next
  case c0: (Cons a r1)
  show ?thesis
  proof (cases "byte a < 128")
    case True
    with c0 show ?thesis
      by (simp add: utf8Head_def)
  next
    case n1: False
    show ?thesis
    proof (cases r1)
      case Nil
      with assms c0 n1 show ?thesis
        by (simp add: utf8Head_def)
    next
      case c1: (Cons b r2)
      show ?thesis
      proof (cases "194 \<le> byte a \<and> byte a \<le> 223")
        case True
        with assms c0 c1 n1 show ?thesis
          by (auto simp add: utf8Head_def split: if_splits)
      next
        case n2: False
        show ?thesis
        proof (cases r2)
          case Nil
          with assms c0 c1 n1 n2 show ?thesis
            by (simp add: utf8Head_def)
        next
          case c2: (Cons d r3)
          show ?thesis
          proof (cases "224 \<le> byte a \<and> byte a \<le> 239")
            case True
            with assms c0 c1 c2 n1 n2 show ?thesis
              by (auto simp add: utf8Head_def split: if_splits)
          next
            case n3: False
            show ?thesis
            proof (cases r3)
              case Nil
              with assms c0 c1 c2 n1 n2 n3 show ?thesis
                by (simp add: utf8Head_def)
            next
              case c3: (Cons e r4)
              with assms c0 c1 c2 n1 n2 n3 show ?thesis
                by (auto simp add: utf8Head_def split: if_splits)
            qed
          qed
        qed
      qed
    qed
  qed
qed

text \<open>
  An escaping that rewrites byte by byte, leaves the bytes from 0x80 on alone and is
  undone by the decoder on the ASCII bytes it admits, is undone on every valid UTF-8
  string of admitted bytes.
\<close>

lemma jsonUnescape_plain:
  assumes "c \<noteq> dq" "\<not> byte c < 32" "c \<noteq> bs"
    and "utf8Head (c # cs) = k" "k \<noteq> 0"
    and "take k (c # cs) = p" "drop (k - 1) cs = r"
  shows "jsonUnescape (c # cs) = map_option ((@) p) (jsonUnescape r)"
proof -
  have "jsonUnescape (c # cs) =
      (if utf8Head (c # cs) = 0 then None
       else map_option ((@) (take (utf8Head (c # cs)) (c # cs)))
              (jsonUnescape (drop (utf8Head (c # cs) - 1) cs)))"
    using assms(1-3) by (subst jsonUnescape.simps) simp
  then show ?thesis
    unfolding assms(4) assms(6) assms(7) using assms(5) by simp
qed

lemma concat_map_single: "\<forall>x\<in>set xs. e x = [x] \<Longrightarrow> concat (map e xs) = xs"
  by (induction xs) simp_all

lemma roundtrip_bytewise:
  assumes e_ascii: "\<And>c X. byte c < 128 \<Longrightarrow> ok c \<Longrightarrow>
      jsonUnescape (e c @ X) = map_option ((#) c) (jsonUnescape X)"
    and e_high: "\<And>c. 128 \<le> byte c \<Longrightarrow> e c = [c]"
  shows "validUTF8 s \<Longrightarrow> \<forall>c\<in>set s. ok c \<Longrightarrow> jsonUnescape (concat (map e s)) = Some s"
proof (induction s rule: validUTF8.induct)
  case 1
  show ?case by simp
next
  case (2 c cs)
  let ?k = "utf8Head (c # cs)"
  from "2.prems"(1) have k0: "?k \<noteq> 0" and v: "validUTF8 (drop (?k - 1) cs)"
    by simp_all
  have sub: "\<forall>x\<in>set (drop (?k - 1) cs). ok x"
    using "2.prems"(2) by (auto dest: in_set_dropD)
  have ih: "jsonUnescape (concat (map e (drop (?k - 1) cs))) = Some (drop (?k - 1) cs)"
    using "2.IH" k0 v sub by blast
  show ?case
  proof (cases "byte c < 128")
    case True
    then have "?k = 1"
      by (rule utf8Head_ascii)
    with ih have "jsonUnescape (concat (map e cs)) = Some cs"
      by simp
    moreover have "ok c"
      using "2.prems"(2) by simp
    ultimately show ?thesis
      using e_ascii [OF True] by simp
  next
    case False
    then have hi: "128 \<le> byte c"
      by simp
    let ?pre = "take ?k (c # cs)"
    let ?rest = "drop (?k - 1) cs"
    let ?X = "concat (map e ?rest)"
    have kl: "?k \<le> length (c # cs)"
      by (rule utf8Head_le)
    have split: "c # cs = ?pre @ ?rest"
      using k0 by (cases ?k) simp_all
    have pre_high: "\<forall>x\<in>set ?pre. 128 \<le> byte x"
      using utf8Head_high [OF hi] by blast
    then have epre: "concat (map e ?pre) = ?pre"
      using e_high by (intro concat_map_single) simp
    have "concat (map e (c # cs)) = concat (map e (?pre @ ?rest))"
      using split by simp
    also have "\<dots> = ?pre @ ?X"
      using epre by simp
    finally have enc: "concat (map e (c # cs)) = ?pre @ ?X" .
    obtain pre' where pre': "?pre = c # pre'" and lp: "length pre' = ?k - 1"
      using k0 kl by (cases ?k) auto
    have head: "utf8Head (c # pre' @ ?X) = ?k"
      using utf8Head_append [OF k0, of ?X] pre' by simp
    have c: "c \<noteq> dq" "\<not> byte c < 32" "c \<noteq> bs"
      using hi by (auto simp add: dq_def bs_def byte_def)
    have tk: "take ?k (c # pre' @ ?X) = ?pre"
      using pre' lp k0 by (cases ?k) simp_all
    have dr: "drop (?k - 1) (pre' @ ?X) = ?X"
      using lp by simp
    have "jsonUnescape (c # pre' @ ?X) = map_option ((@) ?pre) (jsonUnescape ?X)"
      using c head k0 tk dr by (rule jsonUnescape_plain)

    with ih enc pre' split show ?thesis
      by simp
  qed
qed

lemma esc5_undone:
  assumes "byte c < 128" and "32 \<le> byte c \<or> c = nl \<or> c = cr \<or> c = tab"
  shows "jsonUnescape (esc5 c @ X) = map_option ((#) c) (jsonUnescape X)"
proof (cases "c = bs \<or> c = dq \<or> c = nl \<or> c = cr \<or> c = tab")
  case True
  then show ?thesis
    by (auto simp add: esc5_def escChar_def bs_def dq_def nl_def cr_def tab_def byte_def)
next
  case False
  with assms have "32 \<le> byte c" "c \<noteq> dq" "c \<noteq> bs" "esc5 c = [c]"
    by (auto simp add: esc5_def)
  with assms(1) show ?thesis
    by (cases "jsonUnescape X") (simp_all add: utf8Head_ascii)

qed

lemma esc2_undone:
  assumes "byte c < 128" and "32 \<le> byte c"
  shows "jsonUnescape (esc2 c @ X) = map_option ((#) c) (jsonUnescape X)"
proof (cases "c = bs \<or> c = dq")
  case True
  then show ?thesis
    by (auto simp add: esc2_def escChar_def bs_def dq_def byte_def)
next
  case False
  with assms have "32 \<le> byte c" "c \<noteq> dq" "c \<noteq> bs" "esc2 c = [c]"
    by (auto simp add: esc2_def)
  with assms(1) show ?thesis
    by (cases "jsonUnescape X") (simp_all add: utf8Head_ascii)

qed

lemma esc_high: "128 \<le> byte c \<Longrightarrow> esc5 c = [c]" "128 \<le> byte c \<Longrightarrow> esc2 c = [c]"
  by (auto simp add: esc5_def esc2_def bs_def dq_def nl_def cr_def tab_def byte_def)

lemma unescape_trace:
  assumes "validUTF8 s" and "\<forall>c\<in>set s. 32 \<le> byte c \<or> c = nl \<or> c = cr \<or> c = tab"
  shows "jsonUnescape (escapeStackTrace s) = Some s"
  unfolding escapeStackTrace_concat
  using esc5_undone esc_high(1) assms
  by (rule roundtrip_bytewise [where ok = "\<lambda>c. 32 \<le> byte c \<or> c = nl \<or> c = cr \<or> c = tab"])

lemma unescape_message:
  assumes "validUTF8 s" and "\<forall>c\<in>set s. 32 \<le> byte c"
  shows "jsonUnescape (escapeMessage s) = Some s"
  unfolding escapeMessage_concat
  using esc2_undone esc_high(2) assms
  by (rule roundtrip_bytewise [where ok = "\<lambda>c. 32 \<le> byte c"])

text \<open>
  C4 (the code departs from the claim). The claim: the escaping rule, all five
  replacements in order, is applied to the message as well as to the stack trace. The
  stack trace gets the five passes; the message gets the first two only. For the message
  \<^verbatim>\<open>a\<close>, newline, \<^verbatim>\<open>b\<close> the encoder leaves the newline as it is, where the same text as
  a stack trace is written with the two-byte escape, and the message as encoded is no
  JSON string any more.
\<close>

theorem C4_message_newline_not_escaped:
  "escapeMessage [CHR ''a'', nl, CHR ''b''] = [CHR ''a'', nl, CHR ''b''] \<and>
   escapeStackTrace [CHR ''a'', nl, CHR ''b''] = [CHR ''a'', bs, CHR ''n'', CHR ''b''] \<and>
   jsonUnescape (escapeMessage [CHR ''a'', nl, CHR ''b'']) = None"
  by (simp add: escapeMessage_Cons escapeStackTrace_Cons esc5_def utf8Head_ascii
      bs_def dq_def nl_def cr_def tab_def byte_def)

text \<open>
  C5 (corrected). As stated, for every message and every trace, the round trip fails. A
  trace holding the byte 0x1B (escape) is passed through unchanged by the five passes,
  and a JSON string may not hold a byte below 0x20. And a trace holding the byte 0xFF,
  which is no UTF-8, is passed through unchanged as well, and no JSON decoder gives that
  byte back.
\<close>

theorem C5_roundtrip_counterexample:
  "jsonUnescape (escapeStackTrace [CHR ''x'', CHR 0x1B]) \<noteq> Some [CHR ''x'', CHR 0x1B] \<and>
   jsonUnescape (escapeStackTrace [CHR ''p'', CHR 0xFF, CHR ''q''])
     \<noteq> Some [CHR ''p'', CHR 0xFF, CHR ''q'']"
  by (simp add: escapeStackTrace_Cons esc5_def utf8Head_def bs_def dq_def nl_def cr_def tab_def
      byte_def)

text \<open>
  C5, as amended: a trace that is valid UTF-8 and whose bytes below 0x20 are only
  newline, carriage return and tab, and a message that is valid UTF-8 with no byte below
  0x20, are each reproduced byte for byte by escaping and then unescaping, embedded
  quotes and backslashes (and, in the trace, newlines) included.
\<close>

theorem C5_roundtrip:
  assumes "validUTF8 trace"
    and "\<forall>c\<in>set trace. 32 \<le> byte c \<or> c = nl \<or> c = cr \<or> c = tab"
    and "validUTF8 msg"
    and "\<forall>c\<in>set msg. 32 \<le> byte c"
  shows "jsonUnescape (escapeStackTrace trace) = Some trace \<and>
         jsonUnescape (escapeMessage msg) = Some msg"
  using assms unescape_trace unescape_message by blast

theorem C5_roundtrip_witness:
  "jsonUnescape (escapeStackTrace [CHR ''a'', dq, bs, nl, tab, CHR 0xC3, CHR 0xA9, CHR ''z''])
     = Some [CHR ''a'', dq, bs, nl, tab, CHR 0xC3, CHR 0xA9, CHR ''z''] \<and>
   jsonUnescape (escapeMessage [CHR ''a'', dq, bs, CHR 0xE2, CHR 0x82, CHR 0xAC, CHR ''n''])
     = Some [CHR ''a'', dq, bs, CHR 0xE2, CHR 0x82, CHR 0xAC, CHR ''n'']"
  by (rule C5_roundtrip)
    (simp_all add: utf8Head_def isCont_def second3_def bs_def dq_def nl_def cr_def tab_def
      byte_def)

section \<open>Properties of the Tenant Resolver\<close>

lemma Index_first:
  "prefix sub (drop i s) \<Longrightarrow> i \<le> length s \<Longrightarrow> (\<forall>j<i. \<not> prefix sub (drop j s)) \<Longrightarrow>
   Index s sub = Some i"
proof (induction s arbitrary: i)
  case Nil
  then show ?case by simp
next
  case (Cons c cs)
  show ?case
  proof (cases i)
    case 0
    with Cons.prems show ?thesis by simp
  next
    case (Suc k)
    with Cons.prems have not0: "\<not> prefix sub (c # cs)"
      by force
    have "\<forall>j<k. \<not> prefix sub (drop j cs)"
    proof (intro allI impI)
      fix j
      assume "j < k"
      then have "Suc j < i"
        using Suc by simp
      with Cons.prems(3) have "\<not> prefix sub (drop (Suc j) (c # cs))"
        by blast
      then show "\<not> prefix sub (drop j cs)"
        by simp
    qed
    moreover from Cons.prems Suc have "prefix sub (drop k cs)" "k \<le> length cs"
      by simp_all
    ultimately have "Index cs sub = Some k"
      using Cons.IH by blast
    with not0 Suc show ?thesis
      by simp
  qed
qed

lemma extractBoardId_firstMatch:
  "extractBoardId uni env r =
     firstMatch [Inr (Get (Query r) ''boardId''), Inr (Get (Header r) ''X-Board-Id''),
                 Inr (Getenv env ''BOARD_ID''), webapiPattern uni (Host r),
                 webapiPattern uni (Getenv env ''RUNTIME_ERROR_ENDPOINT_URL'')]"
  by (simp add: extractBoardId_def split: sum.splits)

lemma webapiPattern_first:
  assumes "isASCII s" "firstMarker s i"
  shows "webapiPattern uni s =
     (if 24 \<le> length (drop (i + 6) s) \<and> isValidHex (take 24 (drop (i + 6) s))
      then Inr (take 24 (drop (i + 6) s)) else Inr [])"
proof -
  from assms(2) have m: "prefix ''webapi'' (drop i (map lowerByte s))"
    and nm: "\<forall>j<i. \<not> prefix ''webapi'' (drop j (map lowerByte s))"
    by (simp_all add: firstMarker_def markerAt_def)
  from m have len: "6 \<le> length (drop i (map lowerByte s))"
    using prefix_length_le by fastforce
  then have i6: "i + 6 \<le> length s"
    by simp
  then have "i \<le> length (map lowerByte s)"
    by simp
  with m nm have "Index (map lowerByte s) ''webapi'' = Some i"
    by (rule_tac Index_first) auto
  moreover from i6 have "s \<noteq> []"
    by auto
  ultimately show ?thesis
    using assms(1) i6 by (simp add: webapiPattern_def ToLower_def Let_def)
qed




text \<open>
  C3 (corrected). As stated the claim fails when the marker occurs more than once: the
  source looks at the first occurrence only. In the host below the second \<^verbatim>\<open>webapi\<close>
  is followed by 24 hexadecimal characters, the first one is not, and with no other source
  set the resolver returns absent.
\<close>

theorem C3_second_marker_counterexample:
  "markerAt ''webapiwebapi0123456789abcdef01234567'' 6 \<and>
   24 \<le> length (drop 12 ''webapiwebapi0123456789abcdef01234567'') \<and>
   isValidHex (take 24 (drop 12 ''webapiwebapi0123456789abcdef01234567'')) \<and>
   extractBoardId (\<lambda>s. s) Map.empty
     \<lparr>Query = Map.empty, Header = Map.empty, Host = ''webapiwebapi0123456789abcdef01234567'',
      Path = ''/'', Method = ''GET''\<rparr> = Inr [] \<and>
   take 24 (drop 12 ''webapiwebapi0123456789abcdef01234567'') = ''0123456789abcdef01234567''"
  by (simp add: markerAt_def lowerByte_def byte_def isValidHex_def isHexByte_def
      extractBoardId_def Get_def Getenv_def webapiPattern_def ToLower_def isASCII_def Let_def)

text \<open>
  C3, as amended: for a request with no board id in the query parameter, the header or the
  environment variable, and a host of ASCII bytes whose first occurrence of the marker
  (letter case ignored) is at offset \<open>i\<close>: if at least 24 characters follow that
  occurrence and the first 24 are all hexadecimal, the resolver returns exactly those 24;
  if fewer than 24 follow it, or one of the 24 is no hexadecimal digit, the host yields
  nothing and the result is that of the next source, the endpoint URL.
\<close>

theorem C3_host_pattern:
  assumes "Get (Query r) ''boardId'' = []"
    and "Get (Header r) ''X-Board-Id'' = []"
    and "Getenv env ''BOARD_ID'' = []"
    and "isASCII (Host r)"
    and "firstMarker (Host r) i"
  shows "(24 \<le> length (drop (i + 6) (Host r)) \<and> isValidHex (take 24 (drop (i + 6) (Host r)))
            \<longrightarrow> extractBoardId uni env r = Inr (take 24 (drop (i + 6) (Host r)))) \<and>
         (length (drop (i + 6) (Host r)) < 24 \<or> \<not> isValidHex (take 24 (drop (i + 6) (Host r)))
            \<longrightarrow> extractBoardId uni env r =
                  webapiPattern uni (Getenv env ''RUNTIME_ERROR_ENDPOINT_URL''))"
proof -
  have host: "webapiPattern uni (Host r) =
     (if 24 \<le> length (drop (i + 6) (Host r)) \<and> isValidHex (take 24 (drop (i + 6) (Host r)))
      then Inr (take 24 (drop (i + 6) (Host r))) else Inr [])"
    using assms(4,5) by (rule webapiPattern_first)
  have ne: "24 \<le> length (drop (i + 6) (Host r)) \<Longrightarrow> take 24 (drop (i + 6) (Host r)) \<noteq> []"
    by auto
  show ?thesis
    using assms(1-3) ne by (auto simp add: extractBoardId_def host split: sum.splits)
qed

theorem C3_host_pattern_witness:
  "isASCII ''webapi0123456789abcdef01234567.up.example.com'' \<and>
   firstMarker ''webapi0123456789abcdef01234567.up.example.com'' 0 \<and>
   extractBoardId (\<lambda>s. s) Map.empty
     \<lparr>Query = Map.empty, Header = Map.empty,
      Host = ''webapi0123456789abcdef01234567.up.example.com'',
      Path = ''/'', Method = ''GET''\<rparr> = Inr ''0123456789abcdef01234567''"
proof -
  let ?r = "\<lparr>Query = Map.empty, Header = Map.empty,
      Host = ''webapi0123456789abcdef01234567.up.example.com'',
      Path = ''/'', Method = ''GET''\<rparr>"
  have a: "isASCII (Host ?r)"
    by (simp add: isASCII_def byte_def)
  have f: "firstMarker (Host ?r) 0"
    by (simp add: firstMarker_def markerAt_def lowerByte_def byte_def)
  have q: "Get (Query ?r) ''boardId'' = []" "Get (Header ?r) ''X-Board-Id'' = []"
    "Getenv Map.empty ''BOARD_ID'' = []"
    by (simp_all add: Get_def Getenv_def)
  from C3_host_pattern [OF q a f, of "\<lambda>s. s"] a f show ?thesis
    by (simp add: isValidHex_def isHexByte_def byte_def)
qed

section \<open>Properties of the Trace Locator\<close>


















lemma length_flatFrames [simp]: "length (flatFrames ms) = 2 * length ms"
  by (induction ms) (auto simp: flatFrames_def)











section \<open>Properties of the Report Encoder\<close>

lemma natDigits_digits: "c \<in> set (natDigits n) \<Longrightarrow> isDigit c"
proof (induction n rule: natDigits.induct)
  case (1 n)
  show ?case
  proof (cases "n < 10")
    case True
    with "1.prems" have "c = char_of (48 + n)"
      by (subst (asm) natDigits.simps) simp
    with True show ?thesis
      by (simp add: isDigit_def byte_def)
  next
    case False
    with "1.prems" have "c \<in> set (natDigits (n div 10)) \<or> c = char_of (48 + n mod 10)"
      by (subst (asm) natDigits.simps) auto
    then show ?thesis
    proof
      assume "c \<in> set (natDigits (n div 10))"
      with False "1.IH" show ?thesis by simp
    next
      assume "c = char_of (48 + n mod 10)"
      moreover have "(48 + n mod 10) mod 256 = 48 + n mod 10"
        by (simp add: mod_less)
      moreover have "n mod 10 < 10" by simp
      ultimately show ?thesis
        by (simp add: isDigit_def byte_def)
    qed
  qed
qed

lemma natDigits_no_dq: "dq \<notin> set (natDigits n)"
  using natDigits_digits [of dq n] by (auto simp add: isDigit_def byte_def dq_def)

text \<open>Every key of the list is a line of the rendered text, with its value text.\<close>

lemma Contains_middle: "Contains (pre @ x @ post) x"
proof (induction pre)
  case Nil
  have "prefix x (x @ post)"
    by simp
  then show ?case
    by (cases "x @ post") (simp_all add: Contains_def)
next
  case (Cons c pre)
  then show ?case
    by (simp add: Contains_def)
qed

lemma Join_holds: "x \<in> set xs \<Longrightarrow> \<exists>pre post. Join xs sep = pre @ x @ post"
proof (induction xs sep rule: Join.induct)
  case (1 sep)
  then show ?case by simp
next
  case (2 p sep)
  then have "Join [p] sep = [] @ x @ []"
    by simp
  then show ?case by blast
next
  case (3 p q ps sep)
  show ?case
  proof (cases "x = p")
    case True
    then have "Join (p # q # ps) sep = [] @ x @ (sep @ Join (q # ps) sep)"
      by simp
    then show ?thesis by blast
  next
    case False
    with "3.prems" have "x \<in> set (q # ps)"
      by simp
    with "3.IH" obtain pre post where "Join (q # ps) sep = pre @ x @ post"
      by blast
    then have "Join (p # q # ps) sep = (p @ sep @ pre) @ x @ post"
      by simp
    then show ?thesis by blast
  qed
qed

lemma render_holds:
  assumes "(k, v) \<in> set kvs"
  shows "Contains (renderPayload n kvs) (replicate n (CHR '' '') @ quoted k @ '':'' @ v)"
proof -
  let ?line = "\<lambda>(k, v). replicate n (CHR '' '') @ quoted k @ '':'' @ v"
  from assms have "?line (k, v) \<in> set (map ?line kvs)"
    by force
  then obtain pre post where "Join (map ?line kvs) ('','' @ [nl]) = pre @ ?line (k, v) @ post"
    using Join_holds by blast
  then have "renderPayload n kvs =
      (''{'' @ [nl] @ pre) @ (replicate n (CHR '' '') @ quoted k @ '':'' @ v) @
      (post @ [nl] @ replicate (n - 4) (CHR '' '') @ ''}'')"
    by (simp add: renderPayload_def)
  then show ?thesis
    using Contains_middle by metis
qed

text \<open>
  C8 (confirmed). Every payload of the program is a rendering of \<open>payloadFields\<close>: that
  of a request panic with the kind \<^verbatim>\<open>panic\<close> and the request's metadata, those of the two
  startup paths with the fixed metadata. In every one the ten keys are all present, in
  the order of the template; an unresolved board id, an unlocated file and an unlocated
  line each have the value text \<^verbatim>\<open>null\<close>, and the rendered payload holds the key with
  \<^verbatim>\<open>null\<close> behind the colon; and none of these three values is ever the empty string
  literal.
\<close>

theorem C8_absent_is_null:
  "panicPayload now boardId r err stackTrace =
     renderPayload 8
       (payloadFields boardId now (locate stackTrace) stackTrace err ''panic''
          (Path r) (Method r) (UserAgent r)) \<and>
   startupFields ty now boardId msg stackTrace =
     payloadFields boardId now (locateStartup stackTrace) stackTrace msg ty
       ''STARTUP'' ''STARTUP'' ''STARTUP_ERROR'' \<and>
   map fst (payloadFields boardId now loc stackTrace msg ty path meth ua) =
     [''boardId'', ''timestamp'', ''file'', ''line'', ''stackTrace'', ''message'',
      ''exceptionType'', ''requestPath'', ''requestMethod'', ''userAgent''] \<and>
   (boardId = [] \<longrightarrow>
      map_of (payloadFields boardId now loc stackTrace msg ty path meth ua) ''boardId'' =
        Some ''null'' \<and>
      Contains (renderPayload n (payloadFields boardId now loc stackTrace msg ty path meth ua))
        (replicate n (CHR '' '') @ quoted ''boardId'' @ '':'' @ ''null'')) \<and>
   (fst loc = [] \<longrightarrow>
      map_of (payloadFields boardId now loc stackTrace msg ty path meth ua) ''file'' =
        Some ''null'' \<and>
      Contains (renderPayload n (payloadFields boardId now loc stackTrace msg ty path meth ua))
        (replicate n (CHR '' '') @ quoted ''file'' @ '':'' @ ''null'')) \<and>
   (snd loc \<le> 0 \<longrightarrow>
      map_of (payloadFields boardId now loc stackTrace msg ty path meth ua) ''line'' =
        Some ''null'' \<and>
      Contains (renderPayload n (payloadFields boardId now loc stackTrace msg ty path meth ua))
        (replicate n (CHR '' '') @ quoted ''line'' @ '':'' @ ''null'')) \<and>
   map_of (payloadFields boardId now loc stackTrace msg ty path meth ua) ''boardId'' \<noteq>
     Some (quoted []) \<and>
   map_of (payloadFields boardId now loc stackTrace msg ty path meth ua) ''file'' \<noteq>
     Some (quoted []) \<and>
   map_of (payloadFields boardId now loc stackTrace msg ty path meth ua) ''line'' \<noteq>
     Some (quoted [])"
proof -
  let ?kvs = "payloadFields boardId now loc stackTrace msg ty path meth ua"
  have l: "0 < snd loc \<Longrightarrow> itoa (snd loc) \<noteq> quoted []"
  proof
    assume "0 < snd loc" "itoa (snd loc) = quoted []"
    then have "dq \<in> set (natDigits (nat (snd loc)))"
      by (simp add: itoa_def quoted_def)
    then show False
      using natDigits_no_dq by blast
  qed
  have r: "\<And>f. f \<noteq> [] \<Longrightarrow> ReplaceAll f dq [bs, dq] \<noteq> []"
    by (case_tac f) (simp_all add: ReplaceAll_Cons)
  have vals: "map fst ?kvs =
     [''boardId'', ''timestamp'', ''file'', ''line'', ''stackTrace'', ''message'',
      ''exceptionType'', ''requestPath'', ''requestMethod'', ''userAgent''] \<and>
   (boardId = [] \<longrightarrow> map_of ?kvs ''boardId'' = Some ''null'') \<and>
   (fst loc = [] \<longrightarrow> map_of ?kvs ''file'' = Some ''null'') \<and>
   (snd loc \<le> 0 \<longrightarrow> map_of ?kvs ''line'' = Some ''null'') \<and>
   map_of ?kvs ''boardId'' \<noteq> Some (quoted []) \<and>
   map_of ?kvs ''file'' \<noteq> Some (quoted []) \<and>
   map_of ?kvs ''line'' \<noteq> Some (quoted [])"
    using l r by (simp add: payloadFields_def boardIdJson_def fileJson_def lineJson_def quoted_def)
  have b: "boardId = [] \<Longrightarrow> (''boardId'', ''null'') \<in> set ?kvs"
    by (simp add: payloadFields_def boardIdJson_def)
  have f: "fst loc = [] \<Longrightarrow> (''file'', ''null'') \<in> set ?kvs"
    by (simp add: payloadFields_def fileJson_def)
  have n: "snd loc \<le> 0 \<Longrightarrow> (''line'', ''null'') \<in> set ?kvs"
    by (simp add: payloadFields_def lineJson_def)
  have links: "panicPayload now boardId r err stackTrace =
     renderPayload 8
       (payloadFields boardId now (locate stackTrace) stackTrace err ''panic''
          (Path r) (Method r) (UserAgent r))"
    "startupFields ty now boardId msg stackTrace =
     payloadFields boardId now (locateStartup stackTrace) stackTrace msg ty
       ''STARTUP'' ''STARTUP'' ''STARTUP_ERROR''"
    by (simp_all add: panicPayload_def panicFields_def startupFields_def)
  show ?thesis
    using vals links render_holds
 [OF b, of n] render_holds [OF f, of n]
      render_holds [OF n, of n]
    by blast
qed

theorem C8_absent_is_null_witness:
  "map_of (payloadFields [] ''2026-01-01T00:00:00Z'' ([], 0) ''no frames here'' ''boom''
      ''panic'' ''/api/test'' ''GET'' []) ''boardId'' = Some ''null'' \<and>
   map_of (payloadFields [] ''2026-01-01T00:00:00Z'' ([], 0) ''no frames here'' ''boom''
      ''panic'' ''/api/test'' ''GET'' []) ''file'' = Some ''null'' \<and>
   map_of (payloadFields [] ''2026-01-01T00:00:00Z'' ([], 0) ''no frames here'' ''boom''
      ''panic'' ''/api/test'' ''GET'' []) ''line'' = Some ''null'' \<and>
   Contains (renderPayload 8 (payloadFields [] ''2026-01-01T00:00:00Z'' ([], 0)
      ''no frames here'' ''boom'' ''panic'' ''/api/test'' ''GET'' []))
     (replicate 8 (CHR '' '') @ quoted ''file'' @ '':'' @ ''null'')"
  using C8_absent_is_null [where boardId = "[]" and now = "''2026-01-01T00:00:00Z''"
      and loc = "([], 0)" and stackTrace = "''no frames here''" and msg = "''boom''"
      and ty = "''panic''" and path = "''/api/test''" and meth = "''GET''" and ua = "[]"
      and n = 8]
  by simp

section \<open>Properties of the Report Dispatcher\<close>



section \<open>Properties of the Recovery Middleware\<close>






section \<open>The error body as a JSON document\<close>

lemma utf8Head_dq: "utf8Head (c # cs @ dq # rest) = utf8Head (c # cs)"
proof -
  have d: "\<not> isCont dq"
    by (simp add: isCont_def dq_def byte_def)
  have s3: "\<not> second3 c dq"
    by (simp add: second3_def isCont_def dq_def byte_def)
  have s4: "\<not> second4 c dq"
    by (simp add: second4_def isCont_def dq_def byte_def)
  show ?thesis
  proof (cases cs)
    case Nil
    with d s3 s4 show ?thesis
      by (simp add: utf8Head_def split: list.splits)
  next
    case c1: (Cons b r2)
    show ?thesis
    proof (cases r2)
      case Nil
      with c1 d show ?thesis
        by (simp add: utf8Head_def split: list.splits)
    next
      case c2: (Cons c3 r3)
      show ?thesis
      proof (cases r3)
        case Nil
        with c1 c2 d show ?thesis
          by (simp add: utf8Head_def)
      next
        case (Cons c4 r4)
        with c1 c2 show ?thesis
          by (simp add: utf8Head_def)
      qed
    qed
  qed
qed

lemma drop_no_dq: "dq \<notin> set cs \<Longrightarrow> dq \<notin> set (drop n cs)"
  by (auto dest: in_set_dropD)

lemma scanString_no_dq: "dq \<notin> set s \<Longrightarrow> scanString s = None"
proof (induction s rule: scanString.induct)
  case 1
  show ?case by simp
next
  case (2 c cs)
  from "2.prems" have c: "c \<noteq> dq" and cs: "dq \<notin> set cs"
    by auto
  show ?case
  proof (cases "byte c < 32")
    case True
    with c show ?thesis by simp
  next
    case nb: False
    show ?thesis
    proof (cases "c = bs")
      case False
      from cs have "dq \<notin> set (drop (utf8Head (c # cs) - 1) cs)"
        by (rule drop_no_dq)
      with c nb False "2.IH"(1) show ?thesis by simp
    next
      case True
      show ?thesis
      proof (cases cs)
        case Nil
        with True c nb show ?thesis by simp
      next
        case (Cons e rest)
        with cs have rest: "dq \<notin> set rest" by simp
        show ?thesis
        proof (cases "e = CHR ''u''")
          case False
          with True c nb Cons rest "2.IH"(3) show ?thesis by simp
        next
          case u: True
          show ?thesis
          proof (cases "\<exists>h1 h2 h3 h4 rest'. rest = h1 # h2 # h3 # h4 # rest'")
            case False
            then have "(case rest of h1 # h2 # h3 # h4 # rest' \<Rightarrow>
                 if hex4 h1 h2 h3 h4 \<noteq> None then scanString rest' else None | _ \<Rightarrow> None) = None"
              by (simp split: list.splits)
            with True c nb Cons u show ?thesis by simp
          next
            case True2: True
            then obtain h1 h2 h3 h4 rest' where r: "rest = h1 # h2 # h3 # h4 # rest'"
              by blast
            with rest have "dq \<notin> set rest'" by simp
            with True c nb Cons u r "2.IH"(2) show ?thesis by simp
          qed
        qed
      qed
    qed
  qed
qed

lemma hexVal_dq [simp]: "hexVal dq = None"
  by (simp add: hexVal_def dq_def byte_def)

lemma hex4_dq [simp]:
  "hex4 dq b c d = None" "hex4 a dq c d = None" "hex4 a b dq d = None" "hex4 a b c dq = None"
  by (simp_all add: hex4_def split: option.splits)

lemma escChar_dq [simp]: "escChar dq = Some dq"
  by (simp add: escChar_def)

lemma dq_not_u [simp]: "dq \<noteq> CHR ''u''" "dq \<noteq> bs"
  by (simp_all add: dq_def bs_def)

lemma scanString_content:
  "dq \<notin> set v \<Longrightarrow> dq \<notin> set rest \<Longrightarrow>
   scanString (v @ dq # rest) = (if stringContent v then Some rest else None)"
proof (induction v rule: stringContent.induct)
  case 1
  show ?case by simp
next
  case (2 c cs)
  show ?case
  proof (cases "c = dq \<or> byte c < 32")
    case True
    with "2.prems" show ?thesis by auto
  next
    case nb: False
    show ?thesis
    proof (cases "c = bs")
      case False
      have h: "utf8Head (c # cs @ dq # rest) = utf8Head (c # cs)"
        by (rule utf8Head_dq)
      show ?thesis
      proof (cases "utf8Head (c # cs) = 0")
        case True
        with nb False h show ?thesis by simp
      next
        case k: False
        have "utf8Head (c # cs) - 1 \<le> length cs"
          using utf8Head_le [of "c # cs"] by simp
        then have dr: "drop (utf8Head (c # cs) - 1) (cs @ dq # rest) =
            drop (utf8Head (c # cs) - 1) cs @ dq # rest"
          by simp
        from "2.prems"(1) have "dq \<notin> set cs"
          by simp
        then have "dq \<notin> set (drop (utf8Head (c # cs) - 1) cs)"
          by (rule drop_no_dq)
        with nb False k "2.IH"(1) "2.prems"(2)
        have "scanString (drop (utf8Head (c # cs) - 1) cs @ dq # rest) =
            (if stringContent (drop (utf8Head (c # cs) - 1) cs) then Some rest else None)"
          by simp
        with nb False k h dr show ?thesis by simp
      qed
    next
      case True
      show ?thesis
      proof (cases cs)
        case Nil
        with True nb "2.prems" show ?thesis by (simp add: scanString_no_dq)
      next
        case (Cons e r)
        show ?thesis
        proof (cases "e = CHR ''u''")
          case False
          with True nb Cons "2.IH"(3) "2.prems" show ?thesis by simp
        next
          case u: True
          show ?thesis
          proof (cases r)
            case Nil
            with True nb Cons u show ?thesis by (simp split: list.splits)
          next
            case r1: (Cons h1 r1)
            show ?thesis
            proof (cases r1)
              case Nil
              with True nb Cons u r1 show ?thesis by (simp split: list.splits)
            next
              case r2: (Cons h2 r2)
              show ?thesis
              proof (cases r2)
                case Nil
                with True nb Cons u r1 r2 show ?thesis by (simp split: list.splits)
              next
                case r3: (Cons h3 r3)
                show ?thesis
                proof (cases r3)
                  case Nil
                  with True nb Cons u r1 r2 r3 show ?thesis by (simp split: list.splits)
                next
                  case r4: (Cons h4 r4)
                  with True nb Cons u r1 r2 r3 "2.IH"(2) "2.prems" show ?thesis by simp
                qed
              qed
            qed
          qed
        qed
      qed
    qed
  qed
qed

lemma escChar_byte: "escChar e = Some x \<Longrightarrow> 32 \<le> byte e"
  by (auto simp add: escChar_def byte_def dq_def bs_def split: if_splits)

lemma hexVal_byte: "hexVal h = Some x \<Longrightarrow> 32 \<le> byte h"
  by (auto simp add: hexVal_def split: if_splits)

lemma hex4_bytes:
  "hex4 a b c d = Some x \<Longrightarrow> 32 \<le> byte a \<and> 32 \<le> byte b \<and> 32 \<le> byte c \<and> 32 \<le> byte d"
  by (auto simp add: hex4_def split: option.splits dest: hexVal_byte)

lemma stringContent_bytes: "stringContent v \<Longrightarrow> c \<in> set v \<Longrightarrow> 32 \<le> byte c"
proof (induction v rule: stringContent.induct)
  case 1
  then show ?case by simp
next
  case (2 d ds)
  from "2.prems"(1) have d: "32 \<le> byte d" "d \<noteq> dq"
    by (auto split: if_splits)
  show ?case
  proof (cases "d = bs")
    case False
    with "2.prems"(1) d have k: "utf8Head (d # ds) \<noteq> 0"
      and sc: "stringContent (drop (utf8Head (d # ds) - 1) ds)"
      by simp_all
    from k have "d # ds = take (utf8Head (d # ds)) (d # ds) @ drop (utf8Head (d # ds) - 1) ds"
      by (cases "utf8Head (d # ds)") simp_all
    then have "set (d # ds) =
        set (take (utf8Head (d # ds)) (d # ds)) \<union> set (drop (utf8Head (d # ds) - 1) ds)"
      by (metis set_append)
    with "2.prems"(2) consider
      "c \<in> set (take (utf8Head (d # ds)) (d # ds))" | "c \<in> set (drop (utf8Head (d # ds) - 1) ds)"
      by blast
    then show ?thesis
    proof cases
      case 1
      show ?thesis
      proof (cases "byte d < 128")
        case True
        with 1 d show ?thesis by (simp add: utf8Head_ascii)
      next
        case False
        then have "128 \<le> byte d" by simp
        then have "128 \<le> byte c" using 1 by (rule utf8Head_high)
        then show ?thesis by simp
      qed
    next
      case 2
      with "2.IH"(1) d False k sc show ?thesis by simp
    qed
  next
    case True
    with "2.prems"(1) d obtain e rest where ds: "ds = e # rest"
      by (cases ds) (auto split: if_splits)
    show ?thesis
    proof (cases "e = CHR ''u''")
      case False
      with True ds d "2.prems"(1) obtain x where x: "escChar e = Some x" and sc: "stringContent rest"
        by (auto split: if_splits)
      from x have "32 \<le> byte e" by (rule escChar_byte)
      with "2.IH"(3) True ds False d sc "2.prems"(2)
      show ?thesis
        by auto
    next
      case u: True
      with True ds d "2.prems"(1) obtain h1 h2 h3 h4 rest' x where
        r: "rest = h1 # h2 # h3 # h4 # rest'" and h: "hex4 h1 h2 h3 h4 = Some x"
        and sc: "stringContent rest'"
        by (auto split: if_splits list.splits)
      from h have hb: "32 \<le> byte h1 \<and> 32 \<le> byte h2 \<and> 32 \<le> byte h3 \<and> 32 \<le> byte h4"
        by (rule hex4_bytes)
      have "32 \<le> byte e" using u by (simp add: byte_def)
      with "2.IH"(2) True ds u d r sc hb "2.prems"(2) show ?thesis
        by auto
    qed
  qed
qed

lemma errorBody_verbatim:
  "errorBody v =
     ''{'' @ [dq] @ ''error'' @ [dq] @ '':'' @ [dq] @
     ''An error occurred while processing your request'' @ [dq] @ '','' @ [dq] @ ''message'' @
     [dq] @ '':'' @ [dq] @ v @ [dq] @ ''}''"
  by (simp add: errorBody_def quoted_def)

lemma skipWs_simps [simp]:
  "skipWs [] = []"
  "skipWs (c # cs) = (if isWs c then skipWs cs else c # cs)"
  by (simp_all add: skipWs_def)

lemma notWs [simp]:
  "\<not> isWs dq" "\<not> isWs (CHR ''{'')" "\<not> isWs (CHR ''}'')" "\<not> isWs (CHR '':'')" "\<not> isWs (CHR '','')"
  by (simp_all add: isWs_def dq_def tab_def nl_def cr_def)

lemma scanString_plain:
  "c \<noteq> CHR 0x22 \<Longrightarrow> c \<noteq> CHR 0x5C \<Longrightarrow> 32 \<le> byte c \<Longrightarrow> byte c < 128 \<Longrightarrow>
   scanString (c # cs) = scanString cs"
  by (simp add: dq_def bs_def utf8Head_ascii)

lemma scanString_dq: "scanString (CHR 0x22 # cs) = Some cs"
  by (simp add: dq_def)

lemma scan_errorBody:
  "scanValue (Suc (Suc (Suc (Suc j)))) (errorBody v) =
     (case scanString (v @ dq # ''}'') of
        None \<Rightarrow> None
      | Some a \<Rightarrow>
          (case skipWs a of
             [] \<Rightarrow> None
           | y # ys \<Rightarrow>
               if y = CHR '','' then scanMembers (Suc j) (skipWs ys)
               else if y = CHR ''}'' then Some ys
               else None))"
  by (simp add: errorBody_verbatim scanString_plain scanString_dq dq_def byte_def
      isWs_def nl_def tab_def cr_def del: scanString.simps)

lemma scan_errorBody_low:
  "fuel < 4 \<Longrightarrow> scanValue fuel (errorBody v) = None"
proof -
  assume "fuel < 4"
  then consider "fuel = 0" | "fuel = Suc 0" | "fuel = Suc (Suc 0)" | "fuel = Suc (Suc (Suc 0))"
    by arith
  then show ?thesis
    by cases (simp_all add: errorBody_verbatim scanString_plain scanString_dq dq_def byte_def
      isWs_def nl_def tab_def cr_def del: scanString.simps)
qed

lemma skipWs_errorBody [simp]: "skipWs (errorBody v) = errorBody v"
  by (simp add: errorBody_verbatim isWs_def nl_def tab_def cr_def)

lemma jsonDocument_errorBody:
  assumes "dq \<notin> set v"
  shows "jsonDocument fuel (errorBody v) = (4 \<le> fuel \<and> stringContent v)"
proof (cases "fuel < 4")
  case True
  then show ?thesis
    by (simp add: jsonDocument_def scan_errorBody_low)
next
  case False
  then have "fuel = Suc (Suc (Suc (Suc (fuel - 4))))"
    by arith
  then obtain j where j: "fuel = Suc (Suc (Suc (Suc j)))"
    by blast
  have "scanString (v @ dq # ''}'') = (if stringContent v then Some ''}'' else None)"
    using assms by (intro scanString_content) (simp_all add: dq_def)
  with j show ?thesis
    by (simp add: jsonDocument_def scan_errorBody del: scanValue.simps)
qed

lemma wellFormed_errorBody:
  assumes "dq \<notin> set v"
  shows "wellFormedJSON (errorBody v) = stringContent v"
  unfolding wellFormedJSON_def jsonDocument_errorBody [OF assms]
  by auto

lemma not_wellFormed_dq: "\<not> wellFormedJSON (errorBody [dq])"
proof -
  have "\<not> jsonDocument fuel (errorBody [dq])" for fuel
  proof (cases "fuel < 4")
    case True
    then show ?thesis
      by (simp add: jsonDocument_def scan_errorBody_low)
  next
    case False
    then have "fuel = Suc (Suc (Suc (Suc (fuel - 4))))"
      by arith
    then obtain j where j: "fuel = Suc (Suc (Suc (Suc j)))"
      by blast
    then show ?thesis
      by (simp add: jsonDocument_def scan_errorBody dq_def isWs_def nl_def tab_def cr_def
          del: scanValue.simps)
  qed
  then show ?thesis by (simp add: wellFormedJSON_def)
qed

text \<open>
  C10 (corrected). The body is assembled without escaping, but it is not true that every
  panic text with a backslash, a double quote or a control character gives a malformed
  document. The two bytes backslash and \<^verbatim>\<open>n\<close> give a well-formed one; so does a text with
  double quotes that closes the message and opens a further member; and so does such a
  text with a newline between the members.
\<close>

theorem C10_still_wellformed_counterexample:
  "bs \<in> set [bs, CHR ''n''] \<and>
   wellFormedJSON (errorBody [bs, CHR ''n'']) \<and>
   dq \<in> set ([dq] @ '','' @ [dq] @ ''x'' @ [dq] @ '':'' @ [dq]) \<and>
   wellFormedJSON (errorBody ([dq] @ '','' @ [dq] @ ''x'' @ [dq] @ '':'' @ [dq])) \<and>
   nl \<in> set ([dq] @ '','' @ [nl] @ [dq] @ ''x'' @ [dq] @ '':'' @ [dq]) \<and> byte nl < 32 \<and>
   wellFormedJSON (errorBody ([dq] @ '','' @ [nl] @ [dq] @ ''x'' @ [dq] @ '':'' @ [dq]))"
proof -
  have w1: "wellFormedJSON (errorBody [bs, CHR ''n''])"
    unfolding wellFormedJSON_def
    by (rule exI [of _ 4])
      (simp add: jsonDocument_def errorBody_verbatim numeral_eq_Suc escChar_def hex4_def utf8Head_ascii
        dq_def bs_def byte_def isWs_def nl_def tab_def cr_def)
  have w2: "wellFormedJSON (errorBody ([dq] @ '','' @ [dq] @ ''x'' @ [dq] @ '':'' @ [dq]))"
    unfolding wellFormedJSON_def
    by (rule exI [of _ 5])
      (simp add: jsonDocument_def errorBody_verbatim numeral_eq_Suc escChar_def hex4_def utf8Head_ascii
        dq_def bs_def byte_def isWs_def nl_def tab_def cr_def)
  have w3:
    "wellFormedJSON (errorBody ([dq] @ '','' @ [nl] @ [dq] @ ''x'' @ [dq] @ '':'' @ [dq]))"
    unfolding wellFormedJSON_def
    by (rule exI [of _ 5])
      (simp add: jsonDocument_def errorBody_verbatim numeral_eq_Suc escChar_def hex4_def utf8Head_ascii
        dq_def bs_def byte_def isWs_def nl_def tab_def cr_def)
  have "byte nl < 32"
    by (simp add: nl_def byte_def)
  with w1 w2 w3 show ?thesis
    by simp
qed

text \<open>
  C10, as amended: the middleware puts the panic text between the quotes of the message
  field as it is, with no escaping. Consequently, for every panic text without a double
  quote, the body is a well-formed JSON document exactly when the text is by itself the
  content of a JSON string; so it is malformed whenever such a text holds a control
  character, and also for the text that is a single backslash. The text that is a single
  double quote gives a malformed body as well.
\<close>

theorem C10_unescaped_body:
  "errorBody v =
     ''{'' @ [dq] @ ''error'' @ [dq] @ '':'' @ [dq] @
     ''An error occurred while processing your request'' @ [dq] @ '','' @ [dq] @ ''message'' @
     [dq] @ '':'' @ [dq] @ v @ [dq] @ ''}'' \<and>
   (dq \<notin> set v \<longrightarrow> wellFormedJSON (errorBody v) = stringContent v) \<and>
   (dq \<notin> set v \<and> (\<exists>c\<in>set v. byte c < 32) \<longrightarrow> \<not> wellFormedJSON (errorBody v)) \<and>
   \<not> wellFormedJSON (errorBody [bs]) \<and>
   \<not> wellFormedJSON (errorBody [dq])"
proof (intro conjI impI)
  show "errorBody v =
     ''{'' @ [dq] @ ''error'' @ [dq] @ '':'' @ [dq] @
     ''An error occurred while processing your request'' @ [dq] @ '','' @ [dq] @ ''message'' @
     [dq] @ '':'' @ [dq] @ v @ [dq] @ ''}''"
    by (rule errorBody_verbatim)
next
  assume "dq \<notin> set v"
  then show "wellFormedJSON (errorBody v) = stringContent v"
    by (rule wellFormed_errorBody)
next
  assume a: "dq \<notin> set v \<and> (\<exists>c\<in>set v. byte c < 32)"
  then obtain c where c: "c \<in> set v" "byte c < 32"
    by blast
  have "\<not> stringContent v"
  proof
    assume "stringContent v"
    then have "32 \<le> byte c"
      using c(1) by (rule stringContent_bytes)
    with c(2) show False
      by simp
  qed
  with a show "\<not> wellFormedJSON (errorBody v)"
    by (simp add: wellFormed_errorBody)
next
  have "dq \<notin> set [bs]"
    by (simp add: dq_def bs_def)
  then have "wellFormedJSON (errorBody [bs]) = stringContent [bs]"
    by (rule wellFormed_errorBody)
  then show "\<not> wellFormedJSON (errorBody [bs])"
    by (simp add: dq_def bs_def byte_def)
next
  show "\<not> wellFormedJSON (errorBody [dq])"
    by (rule not_wellFormed_dq)
qed

theorem C10_unescaped_body_witness:
  "\<not> wellFormedJSON (errorBody [CHR ''a'', nl, CHR ''b''])"
proof -
  have "dq \<notin> set [CHR ''a'', nl, CHR ''b''] \<and> (\<exists>c\<in>set [CHR ''a'', nl, CHR ''b'']. byte c < 32)"
    by (simp add: dq_def nl_def byte_def)
  with C10_unescaped_body [of "[CHR ''a'', nl, CHR ''b'']",
      THEN conjunct2, THEN conjunct2, THEN conjunct1]
  show ?thesis
    by (rule mp)
qed

section \<open>Properties of the startup paths\<close>






end
